theory Spec2Isabelle
  imports Complex_Main "HOL-Library.Sublist"
begin

section \<open>Python strings\<close>

text \<open>
  A Python \<open>str\<close> is a sequence of code points. It is modelled as \<open>string\<close>, so a
  character is a code point below 256 (the Latin-1 range); \<open>of_char c\<close> is its code
  point. The predicates below are Python's \<open>str.isspace\<close>, \<open>str.isalpha\<close> and
  \<open>str.lower\<close> on that range.
\<close>

definition isspace :: "char \<Rightarrow> bool" where
  "isspace c = (let n = (of_char c :: nat)
     in (9 \<le> n \<and> n \<le> 13) \<or> (28 \<le> n \<and> n \<le> 32) \<or> n = 133 \<or> n = 160)"

definition isalpha_char :: "char \<Rightarrow> bool" where
  "isalpha_char c = (let n = (of_char c :: nat)
     in (65 \<le> n \<and> n \<le> 90) \<or> (97 \<le> n \<and> n \<le> 122) \<or> n = 170 \<or> n = 181 \<or> n = 186
        \<or> (192 \<le> n \<and> n \<le> 214) \<or> (216 \<le> n \<and> n \<le> 246) \<or> (248 \<le> n \<and> n \<le> 255))"

definition lower_char :: "char \<Rightarrow> char" where
  "lower_char c = (let n = (of_char c :: nat)
     in if (65 \<le> n \<and> n \<le> 90) \<or> (192 \<le> n \<and> n \<le> 214) \<or> (216 \<le> n \<and> n \<le> 222)
        then char_of (n + 32) else c)"

text \<open>\<open>s.isalpha()\<close>: every character is alphabetic and there is at least one.\<close>

definition isalpha :: "string \<Rightarrow> bool" where
  "isalpha s = (s \<noteq> [] \<and> list_all isalpha_char s)"

definition lower :: "string \<Rightarrow> string" where
  "lower s = map lower_char s"

text \<open>\<open>s.strip()\<close>: leading and trailing whitespace removed.\<close>

definition strip :: "string \<Rightarrow> string" where
  "strip s = rev (dropWhile isspace (rev (dropWhile isspace s)))"

text \<open>
  \<open>s.split()\<close> without arguments: the maximal runs of non-whitespace characters, in
  order; no empty string is ever produced. \<open>cur\<close> is the token being read.
\<close>

fun split_acc :: "string \<Rightarrow> string \<Rightarrow> string list" where
  "split_acc cur [] = (if cur = [] then [] else [cur])"
| "split_acc cur (c # cs) =
     (if isspace c then (if cur = [] then split_acc [] cs else cur # split_acc [] cs)
      else split_acc (cur @ [c]) cs)"

definition split :: "string \<Rightarrow> string list" where
  "split s = split_acc [] s"

text \<open>\<open>s * n\<close>: the string repeated \<open>n\<close> times.\<close>

definition repeat :: "string \<Rightarrow> nat \<Rightarrow> string" where
  "repeat s n = concat (replicate n s)"

text \<open>
  \<open>s.replace(old, new)\<close>: the non-overlapping occurrences of \<open>old\<close>, found from left to
  right, are replaced by \<open>new\<close>. \<open>skip\<close> counts the characters of an occurrence that
  are still to be passed over. For an empty \<open>old\<close> Python puts \<open>new\<close> before every
  character and at the end.
\<close>

fun replace_from :: "string \<Rightarrow> string \<Rightarrow> nat \<Rightarrow> string \<Rightarrow> string" where
  "replace_from old new skip [] = []"
| "replace_from old new skip (c # cs) =
     (if 0 < skip then replace_from old new (skip - 1) cs
      else if prefix old (c # cs) then new @ replace_from old new (length old - 1) cs
      else c # replace_from old new 0 cs)"

definition replace :: "string \<Rightarrow> string \<Rightarrow> string \<Rightarrow> string" where
  "replace s old new =
     (if old = [] then new @ concat (map (\<lambda>c. c # new) s) else replace_from old new 0 s)"

section \<open>Python numbers and results\<close>

text \<open>
  \<open>match_threshold\<close> is a Python \<open>float\<close> (or an \<open>int\<close>): a real number, an
  infinity or NaN. Comparisons with NaN are false. \<open>bool(x)\<close> is false for zero only.
\<close>

datatype py_float = Fin real | PosInf | NegInf | NaN

fun float_less :: "py_float \<Rightarrow> py_float \<Rightarrow> bool" where
  "float_less (Fin x) (Fin y) = (x < y)"
| "float_less (Fin x) PosInf = True"
| "float_less NegInf (Fin y) = True"
| "float_less NegInf PosInf = True"
| "float_less _ _ = False"

fun truthy_float :: "py_float option \<Rightarrow> bool" where
  "truthy_float None = False"
| "truthy_float (Some (Fin x)) = (x \<noteq> 0)"
| "truthy_float (Some _) = True"

fun truthy_str :: "string option \<Rightarrow> bool" where
  "truthy_str None = False"
| "truthy_str (Some s) = (s \<noteq> [])"


text \<open>The value \<open>filter_text\<close> returns: \<open>bool | str\<close>.\<close>

datatype result = Bool bool | Str string


section \<open>The filter\<close>

text \<open>
  \<open>TextProcessor\<close> is constructed from four switches. Its method \<open>process_text\<close> is
  not part of \<^verbatim>\<open>check.py\<close>: it is the parameter \<open>pt\<close> of every operation below, a
  function of the processor's configuration and the text.
\<close>

record text_processor =
  processing_normalize_text :: bool
  processing_aggressive_normalize :: bool
  processing_transliterate :: bool
  processing_replace_homoglyphs :: bool

text \<open>
  The resource directory: \<open>paths\<close> are the strings \<open>str(path)\<close> of its entries in the
  order of \<open>iterdir()\<close>; \<open>bdw lang\<close> is the file \<^verbatim>\<open><lang>.bdw\<close>: \<open>None\<close> when it does not
  exist, \<open>Unreadable\<close> when opening or reading it raises, and otherwise the lines
  \<open>f.read().splitlines()\<close>.
\<close>

datatype bdw_file = Unreadable | Lines "string list"

record resource_dir =
  paths :: "string list"
  bdw :: "string \<Rightarrow> bdw_file option"

record profanity_filter =
  resource_dir :: resource_dir
  text_processor :: text_processor
  language_files :: "string list"
  bad_words :: "string set"



text \<open>
  The loop of \<open>initialize_bad_words\<close>. A language whose sanitized code is not
  alphabetic, whose file does not exist or whose file cannot be read is skipped;
  \<open>acc\<close> is the local set \<open>bad_words\<close>.
\<close>

fun load_languages ::
  "(text_processor \<Rightarrow> string \<Rightarrow> string) \<Rightarrow> text_processor \<Rightarrow> resource_dir \<Rightarrow>
   string set \<Rightarrow> string list \<Rightarrow> string set" where
  "load_languages pt tp rd acc [] = acc"
| "load_languages pt tp rd acc (lang # langs) =
     (let lang = strip (lower lang)
      in if \<not> isalpha lang then load_languages pt tp rd acc langs
         else case bdw rd lang of
           None \<Rightarrow> load_languages pt tp rd acc langs
         | Some Unreadable \<Rightarrow> load_languages pt tp rd acc langs
         | Some (Lines words) \<Rightarrow>
             load_languages pt tp rd (acc \<union> set (map (pt tp) words)) langs)"



definition add_words ::
  "(text_processor \<Rightarrow> string \<Rightarrow> string) \<Rightarrow> profanity_filter \<Rightarrow> string list \<Rightarrow> profanity_filter" where
  "add_words pt self words =
     (let processed_words = map (pt (text_processor self)) words
      in self\<lparr>bad_words := bad_words self \<union> set processed_words\<rparr>)"

text \<open>
  \<open>similar\<close> returns \<open>SequenceMatcher(None, a, b).ratio()\<close>, a function of the
  standard library: the parameter \<open>ratio\<close>. Its value is a finite float.
\<close>

definition similar :: "(string \<Rightarrow> string \<Rightarrow> real) \<Rightarrow> string \<Rightarrow> string \<Rightarrow> py_float" where
  "similar ratio a b = Fin (ratio a b)"

text \<open>
  What both matching branches of \<open>filter_text\<close> return: the original text with the
  word replaced when a replacement character is given, \<open>True\<close> otherwise.
\<close>

definition matched :: "string \<Rightarrow> string option \<Rightarrow> string \<Rightarrow> result" where
  "matched text replace_character word =
     (if truthy_str replace_character
      then Str (replace text word (repeat (the replace_character) (length word)))
      else Bool True)"

text \<open>
  The loop over the words of the processed text. The inner loop runs over a set, in no
  fixed order; what it returns does not depend on the entry found, so it is the test
  whether some entry is similar enough.
\<close>

fun filter_words ::
  "(string \<Rightarrow> string \<Rightarrow> real) \<Rightarrow> profanity_filter \<Rightarrow> string \<Rightarrow> py_float \<Rightarrow> string option \<Rightarrow>
   string list \<Rightarrow> result" where
  "filter_words ratio self text match_threshold replace_character [] = Bool False"
| "filter_words ratio self text match_threshold replace_character (word # words) =
     (if word \<in> bad_words self then matched text replace_character word
      else if float_less (Fin 0) match_threshold \<and> float_less match_threshold (Fin 1) \<and>
              (\<exists>bad_word \<in> bad_words self.
                 float_less match_threshold (similar ratio word bad_word))
      then matched text replace_character word
      else filter_words ratio self text match_threshold replace_character words)"

text \<open>
  \<open>filter_text\<close> returns its result and the filter, which it leaves as it found it: the
  method assigns to no attribute of \<open>self\<close>.
\<close>

definition filter_text ::
  "(text_processor \<Rightarrow> string \<Rightarrow> string) \<Rightarrow> (string \<Rightarrow> string \<Rightarrow> real) \<Rightarrow> profanity_filter \<Rightarrow>
   string \<Rightarrow> py_float option \<Rightarrow> string option \<Rightarrow> result \<times> profanity_filter" where
  "filter_text pt ratio self text match_threshold replace_character =
     (let match_threshold = (if \<not> truthy_float match_threshold then Fin 1 else the match_threshold);
          processed_text = pt (text_processor self) text;
          words = split processed_text
      in (filter_words ratio self text match_threshold replace_character words, self))"


text \<open>
  The method once more, as a transformer of the object's state. Here \<open>process_text\<close> is a
  method that may change its own object: the parameter \<open>pts\<close> returns the processed text
  and the processor after the call. It is handed the processor and the text and nothing
  else (line 123), and the constructor gives the processor four booleans and no
  reference to the filter. The filter is passed from statement to statement.
\<close>

fun filter_words_state ::
  "(string \<Rightarrow> string \<Rightarrow> real) \<Rightarrow> string \<Rightarrow> py_float \<Rightarrow> string option \<Rightarrow> string list \<Rightarrow>
   profanity_filter \<Rightarrow> result \<times> profanity_filter" where
  "filter_words_state ratio text match_threshold replace_character [] self = (Bool False, self)"
| "filter_words_state ratio text match_threshold replace_character (word # words) self =
     (if word \<in> bad_words self then (matched text replace_character word, self)
      else if float_less (Fin 0) match_threshold \<and> float_less match_threshold (Fin 1) \<and>
              (\<exists>bad_word \<in> bad_words self.
                 float_less match_threshold (similar ratio word bad_word))
      then (matched text replace_character word, self)
      else filter_words_state ratio text match_threshold replace_character words self)"

definition filter_text_state ::
  "(text_processor \<Rightarrow> string \<Rightarrow> string \<times> text_processor) \<Rightarrow> (string \<Rightarrow> string \<Rightarrow> real) \<Rightarrow>
   profanity_filter \<Rightarrow> string \<Rightarrow> py_float option \<Rightarrow> string option \<Rightarrow>
   result \<times> profanity_filter" where
  "filter_text_state pts ratio self text match_threshold replace_character =
     (let match_threshold = (if \<not> truthy_float match_threshold then Fin 1 else the match_threshold);
          called = pts (text_processor self) text;
          processed_text = fst called;
          self = self\<lparr>text_processor := snd called\<rparr>;
          words = split processed_text
      in filter_words_state ratio text match_threshold replace_character words self)"


text \<open>
  A sequence of calls on one filter: what the lifetime of a filter is made of once it is
  constructed. \<open>run\<close> is the filter after the calls.
\<close>

datatype call = Add_words "string list" | Filter_text string "py_float option" "string option"

fun run ::
  "(text_processor \<Rightarrow> string \<Rightarrow> string) \<Rightarrow> (string \<Rightarrow> string \<Rightarrow> real) \<Rightarrow> profanity_filter \<Rightarrow>
   call list \<Rightarrow> profanity_filter" where
  "run pt ratio self [] = self"
| "run pt ratio self (Add_words words # calls) = run pt ratio (add_words pt self words) calls"
| "run pt ratio self (Filter_text text thr rc # calls) =
     run pt ratio (snd (filter_text pt ratio self text thr rc)) calls"

section \<open>The similarity ratio of the standard library\<close>

text \<open>
  \<open>SequenceMatcher(None, a, b).ratio()\<close> of \<^verbatim>\<open>difflib\<close>, for the witnesses below: the
  theorems hold for every function \<open>ratio\<close>. \<open>find_longest_match\<close> returns the longest
  block \<open>a[i:i+k] == b[j:j+k]\<close>, the one starting earliest in \<open>a\<close> and then earliest
  in \<open>b\<close>; \<open>matches\<close> adds the sizes of the blocks found to its left and to its right,
  as \<open>get_matching_blocks\<close> does; the ratio is \<open>2.0 * matches / length\<close>, and \<open>1.0\<close>
  for two empty strings. Python returns the float nearest to this quotient. The
  heuristic that sets popular characters aside applies to a second string of 200
  characters or more and is left out.
\<close>

fun common_prefix :: "'a list \<Rightarrow> 'a list \<Rightarrow> nat" where
  "common_prefix (x # xs) (y # ys) = (if x = y then Suc (common_prefix xs ys) else 0)"
| "common_prefix _ _ = 0"

definition better ::
  "string \<Rightarrow> string \<Rightarrow> nat \<Rightarrow> nat \<Rightarrow> nat \<times> nat \<times> nat \<Rightarrow> nat \<times> nat \<times> nat" where
  "better a b i j best =
     (let k = common_prefix (drop i a) (drop j b)
      in if snd (snd best) < k then (i, j, k) else best)"

definition find_longest_match :: "string \<Rightarrow> string \<Rightarrow> nat \<times> nat \<times> nat" where
  "find_longest_match a b =
     fold (\<lambda>i. fold (better a b i) [0..<length b]) [0..<length a] (0, 0, 0)"

definition match_ok :: "string \<Rightarrow> string \<Rightarrow> nat \<times> nat \<times> nat \<Rightarrow> bool" where
  "match_ok a b m = (case m of (i, j, k) \<Rightarrow> 0 < k \<longrightarrow> i < length a \<and> j < length b)"

lemma better_ok:
  "match_ok a b best \<Longrightarrow> i < length a \<Longrightarrow> j < length b \<Longrightarrow> match_ok a b (better a b i j best)"
  by (auto simp: match_ok_def better_def Let_def split: prod.splits)

lemma fold_better_ok:
  "match_ok a b best \<Longrightarrow> i < length a \<Longrightarrow> \<forall>j\<in>set js. j < length b \<Longrightarrow>
   match_ok a b (fold (better a b i) js best)"
  by (induction js arbitrary: best) (auto simp: better_ok)

lemma fold_fold_better_ok:
  "match_ok a b best \<Longrightarrow> \<forall>i\<in>set is. i < length a \<Longrightarrow>
   match_ok a b (fold (\<lambda>i. fold (better a b i) [0..<length b]) is best)"
  by (induction "is" arbitrary: best) (auto simp: fold_better_ok)

lemma find_longest_match_bounds:
  "find_longest_match a b = (i, j, k) \<Longrightarrow> 0 < k \<Longrightarrow> i < length a \<and> j < length b"
proof -
  have "match_ok a b (find_longest_match a b)"
    unfolding find_longest_match_def
    by (rule fold_fold_better_ok) (auto simp: match_ok_def)
  then show "find_longest_match a b = (i, j, k) \<Longrightarrow> 0 < k \<Longrightarrow> i < length a \<and> j < length b"
    by (simp add: match_ok_def)
qed

function matches :: "string \<Rightarrow> string \<Rightarrow> nat" where
  "matches a b =
     (case find_longest_match a b of (i, j, k) \<Rightarrow>
        if k = 0 then 0
        else k + matches (take i a) (take j b) + matches (drop (i + k) a) (drop (j + k) b))"
  by pat_completeness auto
termination
proof (relation "measure (\<lambda>(a, b). length a)", goal_cases)
  case 1
  show ?case by simp
next
  case 2
  then show ?case by (auto dest: find_longest_match_bounds [OF sym])
next
  case 3
  then show ?case by (auto dest: find_longest_match_bounds [OF sym])
qed

declare matches.simps [simp del]

definition sequence_matcher_ratio :: "string \<Rightarrow> string \<Rightarrow> real" where
  "sequence_matcher_ratio a b =
     (let length = length a + length b
      in if length \<noteq> 0 then 2 * real (matches a b) / real length else 1)"

section \<open>The matching rule of the specification\<close>

text \<open>
  The specification's \<open>is_match(token, corpus, threshold)\<close>: membership in the corpus,
  or, for a threshold strictly between 0 and 1, some corpus entry whose ratio with the
  token is strictly above the threshold.
\<close>

definition is_match ::
  "(string \<Rightarrow> string \<Rightarrow> real) \<Rightarrow> string set \<Rightarrow> py_float option \<Rightarrow> string \<Rightarrow> bool" where
  "is_match ratio corpus threshold token =
     (token \<in> corpus \<or>
      (case threshold of
         Some (Fin t) \<Rightarrow> 0 < t \<and> t < 1 \<and> (\<exists>entry \<in> corpus. t < ratio token entry)
       | _ \<Rightarrow> False))"

text \<open>
  Modelled from the spec: \<open>TextProcessor.process_text\<close> is not in \<^verbatim>\<open>check.py\<close>. The
  specification (section 4.1) says that with all four capabilities disabled it is an
  identity/trim function. \<open>process_text_off\<close> is that function, for a processor whose
  four switches are off; on a text without leading or trailing whitespace it is the
  identity.
\<close>

definition process_text_off :: "text_processor \<Rightarrow> string \<Rightarrow> string" where
  "process_text_off tp text = strip text"

text \<open>A filter with that processor, no language loaded and the one word \<open>badword\<close>.\<close>

definition plain_filter :: profanity_filter where
  "plain_filter =
     \<lparr>resource_dir = \<lparr>paths = [], bdw = (\<lambda>lang. None)\<rparr>,
      text_processor = \<lparr>processing_normalize_text = False,
                        processing_aggressive_normalize = False,
                        processing_transliterate = False,
                        processing_replace_homoglyphs = False\<rparr>,
      language_files = [],
      bad_words = {''badword''}\<rparr>"



section \<open>Properties of the loop\<close>

lemma filter_words_no_match:
  "\<forall>w \<in> set ws. \<not> is_match ratio (bad_words self) thr w \<Longrightarrow>
   filter_words ratio self text (if \<not> truthy_float thr then Fin 1 else the thr) rc ws = Bool False"
proof (induction ws)
  case Nil
  show ?case by simp
next
  case (Cons w ws)
  then show ?case
    by (cases thr; cases "the thr") (auto simp: is_match_def similar_def)
qed

lemma filter_words_first_match:
  assumes "\<forall>u \<in> set pre. \<not> is_match ratio (bad_words self) thr u"
    and "is_match ratio (bad_words self) thr w"
  shows "filter_words ratio self text (if \<not> truthy_float thr then Fin 1 else the thr) rc
           (pre @ w # post) = matched text rc w"
  using assms
proof (induction pre)
  case Nil
  then show ?case
    by (cases thr; cases "the thr") (auto simp: is_match_def similar_def)
next
  case (Cons u pre)
  then show ?case
    by (cases thr; cases "the thr") (auto simp: is_match_def similar_def)
qed

lemma matched_not_False: "matched text rc w \<noteq> Bool False"
  by (simp add: matched_def)

lemma filter_text_False_iff:
  "fst (filter_text pt ratio self text thr rc) = Bool False \<longleftrightarrow>
   (\<forall>w \<in> set (split (pt (text_processor self) text)). \<not> is_match ratio (bad_words self) thr w)"
proof
  assume r: "fst (filter_text pt ratio self text thr rc) = Bool False"
  show "\<forall>w \<in> set (split (pt (text_processor self) text)). \<not> is_match ratio (bad_words self) thr w"
  proof (rule ccontr)
    assume "\<not> ?thesis"
    then have "\<exists>w \<in> set (split (pt (text_processor self) text)). is_match ratio (bad_words self) thr w"
      by blast
    from split_list_first_prop [OF this] obtain pre w post where
      "split (pt (text_processor self) text) = pre @ w # post"
      "is_match ratio (bad_words self) thr w"
      "\<forall>u \<in> set pre. \<not> is_match ratio (bad_words self) thr u"
      by blast
    then have "fst (filter_text pt ratio self text thr rc) = matched text rc w"
      using filter_words_first_match [of pre ratio self thr w "text" rc post]
      by (simp add: filter_text_def Let_def)
    with r show False by (simp add: matched_not_False)
  qed
next
  assume "\<forall>w \<in> set (split (pt (text_processor self) text)). \<not> is_match ratio (bad_words self) thr w"
  then show "fst (filter_text pt ratio self text thr rc) = Bool False"
    by (simp add: filter_text_def Let_def filter_words_no_match)
qed

section \<open>Properties of \<open>split\<close>\<close>

lemma split_acc_Nil_iff:
  "split_acc cur s = [] \<longleftrightarrow> cur = [] \<and> (\<forall>c \<in> set s. isspace c)"
  by (induction s arbitrary: cur) auto

lemma split_Nil_iff: "split s = [] \<longleftrightarrow> (\<forall>c \<in> set s. isspace c)"
  by (simp add: split_def split_acc_Nil_iff)

lemma split_acc_no_space:
  "\<forall>c \<in> set s. \<not> isspace c \<Longrightarrow> split_acc cur s = (if cur @ s = [] then [] else [cur @ s])"
  by (induction s arbitrary: cur) auto

lemma split_acc_tokens:
  "w \<in> set (split_acc cur s) \<Longrightarrow> \<forall>c \<in> set cur. \<not> isspace c \<Longrightarrow>
   w \<noteq> [] \<and> (\<forall>c \<in> set w. \<not> isspace c)"
proof (induction s arbitrary: cur)
  case Nil
  then show ?case by (auto split: if_splits)
next
  case (Cons c s)
  show ?case
  proof (cases "isspace c")
    case True
    with Cons.prems have "w = cur \<and> cur \<noteq> [] \<or> w \<in> set (split_acc [] s)"
      by (auto split: if_splits)
    then show ?thesis
    proof
      assume "w = cur \<and> cur \<noteq> []"
      with Cons.prems(2) show ?thesis by simp
    next
      assume "w \<in> set (split_acc [] s)"
      then show ?thesis using Cons.IH [of "[]"] by simp
    qed
  next
    case False
    with Cons.prems have "w \<in> set (split_acc (cur @ [c]) s)" by simp
    moreover have "\<forall>x \<in> set (cur @ [c]). \<not> isspace x" using False Cons.prems(2) by simp
    ultimately show ?thesis using Cons.IH [of "cur @ [c]"] by blast
  qed
qed

lemma split_tokens: "w \<in> set (split s) \<Longrightarrow> w \<noteq> [] \<and> (\<forall>c \<in> set w. \<not> isspace c)"
  using split_acc_tokens [of w "[]" s] by (simp add: split_def)

lemma split_single_iff: "split s = [s] \<longleftrightarrow> s \<noteq> [] \<and> (\<forall>c \<in> set s. \<not> isspace c)"
proof
  assume "split s = [s]"
  then have "s \<in> set (split s)" by simp
  then show "s \<noteq> [] \<and> (\<forall>c \<in> set s. \<not> isspace c)" by (rule split_tokens)
next
  assume "s \<noteq> [] \<and> (\<forall>c \<in> set s. \<not> isspace c)"
  then show "split s = [s]" by (simp add: split_def split_acc_no_space)
qed

lemma mem_split_self_iff: "s \<in> set (split s) \<longleftrightarrow> split s = [s]"
proof
  assume "s \<in> set (split s)"
  then have "s \<noteq> [] \<and> (\<forall>c \<in> set s. \<not> isspace c)" by (rule split_tokens)
  then show "split s = [s]" by (simp add: split_single_iff)
next
  assume "split s = [s]"
  then show "s \<in> set (split s)" by simp
qed

section \<open>The claims\<close>

text \<open>
  C10. A text whose processed form has no whitespace-delimited token, that is, one that
  is empty or consists of whitespace only, makes \<open>filter_text\<close> return \<open>False\<close>, whatever
  the threshold and the replacement character.
\<close>

theorem filter_text_no_tokens:
  "(split (pt (text_processor self) text) = [] \<longleftrightarrow>
      (\<forall>c \<in> set (pt (text_processor self) text). isspace c)) \<and>
   (split (pt (text_processor self) text) = [] \<longrightarrow>
      fst (filter_text pt ratio self text thr rc) = Bool False)"
proof (intro conjI impI)
  show "split (pt (text_processor self) text) = [] \<longleftrightarrow>
      (\<forall>c \<in> set (pt (text_processor self) text). isspace c)"
    by (rule split_Nil_iff)
next
  assume "split (pt (text_processor self) text) = []"
  then show "fst (filter_text pt ratio self text thr rc) = Bool False"
    by (simp add: filter_text_def Let_def)
qed

theorem filter_text_no_tokens_witness:
  "split (process_text_off (text_processor plain_filter) ''   '') = [] \<and>
   fst (filter_text process_text_off sequence_matcher_ratio plain_filter ''   ''
          (Some (Fin (1 / 2))) (Some ''*'')) = Bool False"
  using filter_text_no_tokens [of process_text_off plain_filter "''   ''" sequence_matcher_ratio
      "Some (Fin (1 / 2))" "Some ''*''"]
  by (simp add: process_text_off_def strip_def isspace_def)

lemma filter_words_shape:
  "filter_words ratio self text mt rc ws = Bool False \<or>
   (\<exists>w \<in> set ws. filter_words ratio self text mt rc ws = matched text rc w)"
  by (induction ws) auto

text \<open>
  C5. \<open>filter_text\<close> has no failing outcome: the method raises nowhere, and splitting,
  set membership, the ratio, replacing and repeating are defined on every string. Its
  result is \<open>False\<close>, \<open>True\<close> or the text with one of its words replaced; when no word of
  the processed text matches the corpus it is the boolean \<open>False\<close>, for every threshold
  and replacement character.
\<close>

theorem filter_text_never_fails:
  "((\<forall>w \<in> set (split (pt (text_processor self) text)).
       \<not> is_match ratio (bad_words self) thr w) \<longrightarrow>
      fst (filter_text pt ratio self text thr rc) = Bool False) \<and>
   (fst (filter_text pt ratio self text thr rc) = Bool False \<or>
    fst (filter_text pt ratio self text thr rc) = Bool True \<or>
    (\<exists>w \<in> set (split (pt (text_processor self) text)).
       fst (filter_text pt ratio self text thr rc)
         = Str (replace text w (repeat (the rc) (length w)))))"
proof (intro conjI impI)
  assume "\<forall>w \<in> set (split (pt (text_processor self) text)).
            \<not> is_match ratio (bad_words self) thr w"
  then show "fst (filter_text pt ratio self text thr rc) = Bool False"
    by (simp add: filter_text_False_iff)
next
  let ?mt = "if \<not> truthy_float thr then Fin 1 else the thr"
  let ?ws = "split (pt (text_processor self) text)"
  have r: "fst (filter_text pt ratio self text thr rc) = filter_words ratio self text ?mt rc ?ws"
    by (simp add: filter_text_def Let_def)
  from filter_words_shape [of ratio self "text" ?mt rc ?ws]
  show "fst (filter_text pt ratio self text thr rc) = Bool False \<or>
    fst (filter_text pt ratio self text thr rc) = Bool True \<or>
    (\<exists>w \<in> set ?ws. fst (filter_text pt ratio self text thr rc)
         = Str (replace text w (repeat (the rc) (length w))))"
  proof
    assume "filter_words ratio self text ?mt rc ?ws = Bool False"
    then show ?thesis by (simp add: r)
  next
    assume "\<exists>w \<in> set ?ws. filter_words ratio self text ?mt rc ?ws = matched text rc w"
    then obtain w where w: "w \<in> set ?ws"
      and m: "fst (filter_text pt ratio self text thr rc) = matched text rc w"
      unfolding r by blast
    show ?thesis
    proof (cases "truthy_str rc")
      case True
      with m have "fst (filter_text pt ratio self text thr rc)
                     = Str (replace text w (repeat (the rc) (length w)))"
        by (simp add: matched_def)
      with w show ?thesis by blast
    next
      case False
      with m show ?thesis by (simp add: matched_def)
    qed
  qed
qed

lemma tokens_example:
  "split (process_text_off tp ''this is clean text'') = [''this'', ''is'', ''clean'', ''text'']"
  by (simp add: process_text_off_def strip_def split_def isspace_def)

theorem filter_text_never_fails_witness:
  "fst (filter_text process_text_off sequence_matcher_ratio plain_filter ''this is clean text''
          None (Some ''*'')) = Bool False"
proof -
  have "\<forall>w \<in> set (split (process_text_off (text_processor plain_filter) ''this is clean text'')).
          \<not> is_match sequence_matcher_ratio (bad_words plain_filter) None w"
    by (simp add: tokens_example is_match_def plain_filter_def)
  with filter_text_never_fails [of process_text_off plain_filter "''this is clean text''"
      sequence_matcher_ratio None "Some ''*''"]
  show ?thesis by blast
qed

text \<open>
  C1. When some word of the processed text matches the corpus (exactly, or by its ratio
  for a threshold strictly between 0 and 1), the first such word decides the result:
  with a replacement character \<open>filter_text\<close> returns the original text in which every
  occurrence of that word is replaced by the character repeated to the word's length,
  and without one (\<open>None\<close>, or the empty string, which Python takes for false) it
  returns \<open>True\<close>.
\<close>

theorem filter_text_on_match:
  assumes "\<exists>w \<in> set (split (pt (text_processor self) text)). is_match ratio (bad_words self) thr w"
  shows "\<exists>pre word post.
           split (pt (text_processor self) text) = pre @ word # post \<and>
           (\<forall>u \<in> set pre. \<not> is_match ratio (bad_words self) thr u) \<and>
           is_match ratio (bad_words self) thr word \<and>
           fst (filter_text pt ratio self text thr None) = Bool True \<and>
           fst (filter_text pt ratio self text thr (Some [])) = Bool True \<and>
           (\<forall>c. c \<noteq> [] \<longrightarrow>
              fst (filter_text pt ratio self text thr (Some c))
                = Str (replace text word (repeat c (length word))))"
proof -
  from split_list_first_prop [OF assms] obtain pre word post where
    d: "split (pt (text_processor self) text) = pre @ word # post"
    and m: "is_match ratio (bad_words self) thr word"
    and n: "\<forall>u \<in> set pre. \<not> is_match ratio (bad_words self) thr u"
    by blast
  have r: "fst (filter_text pt ratio self text thr rc) = matched text rc word" for rc
    using filter_words_first_match [OF n m, of "text" rc post] d
    by (simp add: filter_text_def Let_def)
  have "fst (filter_text pt ratio self text thr None) = Bool True"
    by (simp add: r matched_def)
  moreover have "fst (filter_text pt ratio self text thr (Some [])) = Bool True"
    by (simp add: r matched_def)
  moreover have "\<forall>c. c \<noteq> [] \<longrightarrow>
      fst (filter_text pt ratio self text thr (Some c))
        = Str (replace text word (repeat c (length word)))"
    by (simp add: r matched_def)
  ultimately show ?thesis using d m n by blast
qed

lemma tokens_badword:
  "split (process_text_off tp ''this is a badword here'')
     = [''this'', ''is'', ''a'', ''badword'', ''here'']"
  by (simp add: process_text_off_def strip_def split_def isspace_def)

theorem filter_text_on_match_witness:
  "fst (filter_text process_text_off sequence_matcher_ratio plain_filter
          ''this is a badword here'' None (Some ''*'')) = Str ''this is a ******* here'' \<and>
   fst (filter_text process_text_off sequence_matcher_ratio plain_filter
          ''this is a badword here'' None None) = Bool True"
proof -
  have "\<exists>w \<in> set (split (process_text_off (text_processor plain_filter) ''this is a badword here'')).
          is_match sequence_matcher_ratio (bad_words plain_filter) None w"
    by (simp add: tokens_badword is_match_def plain_filter_def)
  from filter_text_on_match [of process_text_off plain_filter "''this is a badword here''"
      sequence_matcher_ratio None, OF this] obtain word where
    m: "is_match sequence_matcher_ratio (bad_words plain_filter) None word"
    and t: "fst (filter_text process_text_off sequence_matcher_ratio plain_filter
                   ''this is a badword here'' None None) = Bool True"
    and s: "\<forall>c. c \<noteq> [] \<longrightarrow>
              fst (filter_text process_text_off sequence_matcher_ratio plain_filter
                     ''this is a badword here'' None (Some c))
                = Str (replace ''this is a badword here'' word (repeat c (length word)))"
    by blast
  from m have w: "word = ''badword''"
    by (simp add: is_match_def plain_filter_def)
  have "replace ''this is a badword here'' ''badword'' (repeat ''*'' (length ''badword''))
          = ''this is a ******* here''"
    by (simp add: replace_def repeat_def)
  with s w have "fst (filter_text process_text_off sequence_matcher_ratio plain_filter
                        ''this is a badword here'' None (Some ''*''))
                   = Str ''this is a ******* here''"
    by simp
  with t show ?thesis by simp
qed

text \<open>
  C2. With a threshold of 1, or none, \<open>filter_text\<close> flags a text only through a word
  that is itself in the corpus: a near miss is not flagged, whatever its ratio. With a
  threshold strictly between 0 and 1 it flags a text exactly when some word is in the
  corpus or has, with some corpus entry, a ratio strictly above the threshold.
\<close>

theorem threshold_modes:
  "((thr = None \<or> thr = Some (Fin 1)) \<longrightarrow>
      (fst (filter_text pt ratio self text thr rc) \<noteq> Bool False \<longleftrightarrow>
       (\<exists>w \<in> set (split (pt (text_processor self) text)). w \<in> bad_words self))) \<and>
   (0 < t \<and> t < 1 \<longrightarrow>
      (fst (filter_text pt ratio self text (Some (Fin t)) rc) \<noteq> Bool False \<longleftrightarrow>
       (\<exists>w \<in> set (split (pt (text_processor self) text)).
          w \<in> bad_words self \<or> (\<exists>entry \<in> bad_words self. t < ratio w entry))))"
proof (intro conjI impI)
  assume "thr = None \<or> thr = Some (Fin 1)"
  then have "is_match ratio (bad_words self) thr w \<longleftrightarrow> w \<in> bad_words self" for w
    by (auto simp: is_match_def)
  then show "fst (filter_text pt ratio self text thr rc) \<noteq> Bool False \<longleftrightarrow>
       (\<exists>w \<in> set (split (pt (text_processor self) text)). w \<in> bad_words self)"
    by (simp add: filter_text_False_iff)
next
  assume "0 < t \<and> t < 1"
  then have "is_match ratio (bad_words self) (Some (Fin t)) w \<longleftrightarrow>
      w \<in> bad_words self \<or> (\<exists>entry \<in> bad_words self. t < ratio w entry)" for w
    by (simp add: is_match_def)
  then show "fst (filter_text pt ratio self text (Some (Fin t)) rc) \<noteq> Bool False \<longleftrightarrow>
       (\<exists>w \<in> set (split (pt (text_processor self) text)).
          w \<in> bad_words self \<or> (\<exists>entry \<in> bad_words self. t < ratio w entry))"
    by (simp add: filter_text_False_iff)
qed

lemma tokens_badwork: "split (process_text_off tp ''badwork'') = [''badwork'']"
  by (simp add: process_text_off_def strip_def split_def isspace_def)

lemma ratio_badwork: "sequence_matcher_ratio ''badwork'' ''badword'' = 6 / 7"
proof -
  have "matches ''badwork'' ''badword'' = 6" by code_simp
  then show ?thesis by (simp add: sequence_matcher_ratio_def)
qed

theorem threshold_modes_witness:
  "fst (filter_text process_text_off sequence_matcher_ratio plain_filter ''badwork''
          (Some (Fin 1)) None) = Bool False \<and>
   fst (filter_text process_text_off sequence_matcher_ratio plain_filter ''badwork''
          (Some (Fin (1 / 2))) None) \<noteq> Bool False"
  using threshold_modes [of "Some (Fin 1)" process_text_off sequence_matcher_ratio plain_filter
      "''badwork''" None "1 / 2"]
  by (simp add: tokens_badwork ratio_badwork plain_filter_def)

lemma filter_words_guard_off:
  "\<not> (float_less (Fin 0) mt \<and> float_less mt (Fin 1)) \<Longrightarrow>
   filter_words ratio self text mt rc ws = filter_words ratio self text (Fin 1) rc ws"
  by (induction ws) auto

text \<open>
  C6. A threshold of zero (which Python takes for false, so that it becomes 1) or below
  zero never opens the similarity branch: \<open>filter_text\<close> returns what it returns with no
  threshold and with the threshold 1, and flags a text only through a word that is in
  the corpus.
\<close>

theorem nonpositive_threshold_is_exact:
  assumes "thr = Some (Fin t) \<and> t \<le> 0 \<or> thr = Some NegInf"
  shows "filter_text pt ratio self text thr rc = filter_text pt ratio self text None rc \<and>
         filter_text pt ratio self text thr rc = filter_text pt ratio self text (Some (Fin 1)) rc \<and>
         (fst (filter_text pt ratio self text thr rc) \<noteq> Bool False \<longleftrightarrow>
          (\<exists>w \<in> set (split (pt (text_processor self) text)). w \<in> bad_words self))"
proof -
  let ?mt = "if \<not> truthy_float thr then Fin 1 else the thr"
  from assms have g: "\<not> (float_less (Fin 0) ?mt \<and> float_less ?mt (Fin 1))"
    by auto
  have e: "filter_text pt ratio self text thr rc = filter_text pt ratio self text None rc"
    using filter_words_guard_off [OF g] by (simp add: filter_text_def Let_def)
  have o: "filter_text pt ratio self text (Some (Fin 1)) rc = filter_text pt ratio self text None rc"
    by (simp add: filter_text_def Let_def)
  from assms have "is_match ratio (bad_words self) thr w \<longleftrightarrow> w \<in> bad_words self" for w
    by (auto simp: is_match_def)
  then have "fst (filter_text pt ratio self text thr rc) \<noteq> Bool False \<longleftrightarrow>
      (\<exists>w \<in> set (split (pt (text_processor self) text)). w \<in> bad_words self)"
    by (simp add: filter_text_False_iff)
  with e o show ?thesis by simp
qed

theorem nonpositive_threshold_is_exact_witness:
  "filter_text process_text_off sequence_matcher_ratio plain_filter ''badwork'' (Some (Fin (- 1))) None
     = filter_text process_text_off sequence_matcher_ratio plain_filter ''badwork'' None None \<and>
   fst (filter_text process_text_off sequence_matcher_ratio plain_filter ''badwork''
          (Some (Fin (- 1))) None) = Bool False \<and>
   fst (filter_text process_text_off sequence_matcher_ratio plain_filter ''badwork''
          (Some (Fin 0)) None) = Bool False"
proof -
  have n: "\<not> (\<exists>w \<in> set (split (process_text_off (text_processor plain_filter) ''badwork'')).
                w \<in> bad_words plain_filter)"
    by (simp add: tokens_badwork plain_filter_def)
  have a: "(Some (Fin (- 1)) = Some (Fin (- 1)) \<and> (- 1 :: real) \<le> 0) \<or>
           Some (Fin (- 1)) = Some NegInf"
    by simp
  have b: "(Some (Fin 0) = Some (Fin 0) \<and> (0 :: real) \<le> 0) \<or> Some (Fin 0) = Some NegInf"
    by simp
  from nonpositive_threshold_is_exact [OF a, of process_text_off sequence_matcher_ratio
      plain_filter "''badwork''" None] n
  have 1: "filter_text process_text_off sequence_matcher_ratio plain_filter ''badwork''
             (Some (Fin (- 1))) None
           = filter_text process_text_off sequence_matcher_ratio plain_filter ''badwork'' None None"
    and 2: "fst (filter_text process_text_off sequence_matcher_ratio plain_filter ''badwork''
                   (Some (Fin (- 1))) None) = Bool False"
    by blast+
  from nonpositive_threshold_is_exact [OF b, of process_text_off sequence_matcher_ratio
      plain_filter "''badwork''" None] n
  have 3: "fst (filter_text process_text_off sequence_matcher_ratio plain_filter ''badwork''
                  (Some (Fin 0)) None) = Bool False"
    by blast
  from 1 2 3 show ?thesis by blast
qed

section \<open>Properties of \<open>add_words\<close> and of the state\<close>

lemma bad_words_add_words:
  "bad_words (add_words pt self words) = bad_words self \<union> pt (text_processor self) ` set words"
  by (simp add: add_words_def)

lemma text_processor_add_words: "text_processor (add_words pt self words) = text_processor self"
  by (simp add: add_words_def)

lemma bad_words_run: "bad_words self \<subseteq> bad_words (run pt ratio self calls)"
proof (induction calls arbitrary: self)
  case Nil
  show ?case by simp
next
  case (Cons c calls)
  show ?case
  proof (cases c)
    case (Add_words words)
    have "bad_words self \<subseteq> bad_words (add_words pt self words)"
      by (simp add: bad_words_add_words)
    also have "\<dots> \<subseteq> bad_words (run pt ratio (add_words pt self words) calls)"
      by (rule Cons.IH)
    finally show ?thesis using Add_words by simp
  next
    case (Filter_text v thr rc)
    then show ?thesis using Cons.IH [of self] by (simp add: filter_text_def Let_def)
  qed
qed

lemma load_languages_grows: "acc \<subseteq> load_languages pt tp rd acc langs"
proof (induction langs arbitrary: acc)
  case Nil
  show ?case by simp
next
  case (Cons lang langs)
  have "acc \<subseteq> load_languages pt tp rd (acc \<union> X) langs" for X
    using Cons.IH [of "acc \<union> X"] by blast
  with Cons.IH [of acc] show ?case
    by (simp add: Let_def split: option.split bdw_file.split)
qed

lemma is_match_mono:
  "corpus \<subseteq> corpus' \<Longrightarrow> is_match ratio corpus thr w \<Longrightarrow> is_match ratio corpus' thr w"
  by (cases thr; cases "the thr") (auto simp: is_match_def)

lemma filter_text_None_cases:
  "fst (filter_text pt ratio self text thr None) = Bool True \<longleftrightarrow>
   fst (filter_text pt ratio self text thr None) \<noteq> Bool False"
proof -
  obtain mt ws where e: "fst (filter_text pt ratio self text thr None)
      = filter_words ratio self text mt None ws"
    by (simp add: filter_text_def Let_def)
  from filter_words_shape [of ratio self "text" mt None ws] show ?thesis
    unfolding e by (auto simp: matched_def)
qed

lemma add_words_single:
  assumes "pt (text_processor self) w \<noteq> [] \<and> (\<forall>c \<in> set (pt (text_processor self) w). \<not> isspace c)"
  shows "fst (filter_text pt ratio (add_words pt self [w]) w thr None) = Bool True"
proof -
  let ?p = "pt (text_processor self) w"
  let ?self' = "add_words pt self [w]"
  have tp: "text_processor ?self' = text_processor self"
    by (rule text_processor_add_words)
  have bw: "bad_words ?self' = insert ?p (bad_words self)"
    by (simp add: bad_words_add_words)
  from assms have "split ?p = [?p]" by (simp add: split_single_iff)
  then have "\<exists>u \<in> set (split (pt (text_processor ?self') w)). is_match ratio (bad_words ?self') thr u"
    by (simp add: tp bw is_match_def)
  then have "fst (filter_text pt ratio ?self' w thr None) \<noteq> Bool False"
    by (simp add: filter_text_False_iff)
  then show ?thesis
    by (simp add: filter_text_None_cases)
qed

lemma filter_words_state_eq:
  "filter_words_state ratio text mt rc ws self = (filter_words ratio self text mt rc ws, self)"
  by (induction ws) auto

lemma tokens_darn: "split (process_text_off tp ''darn'') = [''darn'']"
  by (simp add: process_text_off_def strip_def split_def isspace_def)

lemma tokens_a_badword: "split (process_text_off tp ''a badword'') = [''a'', ''badword'']"
  by (simp add: process_text_off_def strip_def split_def isspace_def)



section \<open>The claims on the corpus, the constructor and the state\<close>

text \<open>
  C7. The corpus never shrinks. \<open>add_words\<close> leaves the corpus the union of the old
  corpus and the processed words, so it removes nothing; after any sequence of
  \<open>add_words\<close> and \<open>filter_text\<close> calls every entry that was in the corpus is still in it;
  adding the same words again, or a word twice in one call, changes nothing more; and
  while the constructor loads the languages the set it builds only grows.
\<close>

theorem corpus_never_shrinks:
  "bad_words (add_words pt self words) = bad_words self \<union> pt (text_processor self) ` set words \<and>
   bad_words self \<subseteq> bad_words (add_words pt self words) \<and>
   bad_words self \<subseteq> bad_words (run pt ratio self calls) \<and>
   add_words pt (add_words pt self words) words = add_words pt self words \<and>
   add_words pt self (w # w # words) = add_words pt self (w # words) \<and>
   acc \<subseteq> load_languages pt tp rd acc langs"
proof -
  have "add_words pt (add_words pt self words) words = add_words pt self words"
    by (simp add: add_words_def)
  moreover have "add_words pt self (w # w # words) = add_words pt self (w # words)"
    by (simp add: add_words_def)
  moreover have "bad_words self \<subseteq> bad_words (add_words pt self words)"
    by (simp add: bad_words_add_words)
  ultimately show ?thesis
    using bad_words_add_words [of pt self words] bad_words_run [of self pt ratio calls]
      load_languages_grows [of acc pt tp rd langs]
    by blast
qed

theorem corpus_never_shrinks_witness:
  "bad_words (run process_text_off sequence_matcher_ratio plain_filter
      [Add_words [''Darn'', ''badword'', ''Darn''], Filter_text ''darn it'' None (Some ''*'')])
     = {''badword'', ''Darn''}"
proof -
  have r: "run process_text_off sequence_matcher_ratio plain_filter
      [Add_words [''Darn'', ''badword'', ''Darn''], Filter_text ''darn it'' None (Some ''*'')]
      = add_words process_text_off plain_filter [''Darn'', ''badword'', ''Darn'']"
    by (simp add: filter_text_def Let_def)
  have s: "strip ''Darn'' = ''Darn''" "strip ''badword'' = ''badword''"
    by (simp_all add: strip_def isspace_def)
  have b: "bad_words plain_filter = {''badword''}"
    by (simp add: plain_filter_def)
  from corpus_never_shrinks [of process_text_off plain_filter "[''Darn'', ''badword'', ''Darn'']"
      sequence_matcher_ratio "[]" "''x''" "{}" "text_processor plain_filter"
      "resource_dir plain_filter" "[]"]
  have "bad_words (add_words process_text_off plain_filter [''Darn'', ''badword'', ''Darn''])
      = bad_words plain_filter
        \<union> process_text_off (text_processor plain_filter) ` set [''Darn'', ''badword'', ''Darn'']"
    by blast
  then show ?thesis
    unfolding r b by (auto simp: process_text_off_def s)
qed

text \<open>
  C3, as the code has it. \<open>add_words\<close> stores the processed word whole, while
  \<open>filter_text\<close> compares the whitespace-delimited words of the processed text. So after
  \<open>add_words([w])\<close> the call \<open>filter_text(w)\<close> returns \<open>True\<close> when the processed \<open>w\<close> is one
  word: not empty and without whitespace. With no threshold it returns \<open>True\<close> after the
  call exactly when it did before or the processed \<open>w\<close> is one word. And a text that was
  flagged before \<open>add_words\<close> is flagged after it, for every threshold and replacement
  character.
\<close>

theorem add_words_monotone:
  "(pt (text_processor self) w \<noteq> [] \<and> (\<forall>c \<in> set (pt (text_processor self) w). \<not> isspace c) \<longrightarrow>
      fst (filter_text pt ratio (add_words pt self [w]) w thr None) = Bool True) \<and>
   (fst (filter_text pt ratio (add_words pt self [w]) w None None) = Bool True \<longleftrightarrow>
      fst (filter_text pt ratio self w None None) = Bool True \<or>
      (pt (text_processor self) w \<noteq> [] \<and> (\<forall>c \<in> set (pt (text_processor self) w). \<not> isspace c))) \<and>
   (fst (filter_text pt ratio self v thr rc) \<noteq> Bool False \<longrightarrow>
      fst (filter_text pt ratio (add_words pt self words) v thr rc) \<noteq> Bool False)"
proof (intro conjI impI)
  let ?p = "pt (text_processor self) w"
  let ?self' = "add_words pt self [w]"
  have tp: "text_processor ?self' = text_processor self"
    by (rule text_processor_add_words)
  have bw: "bad_words ?self' = insert ?p (bad_words self)"
    by (simp add: bad_words_add_words)
  show "?p \<noteq> [] \<and> (\<forall>c \<in> set ?p. \<not> isspace c) \<Longrightarrow>
      fst (filter_text pt ratio ?self' w thr None) = Bool True"
    by (rule add_words_single)
  show "fst (filter_text pt ratio ?self' w None None) = Bool True \<longleftrightarrow>
      fst (filter_text pt ratio self w None None) = Bool True \<or>
      (?p \<noteq> [] \<and> (\<forall>c \<in> set ?p. \<not> isspace c))"
  proof
    assume "fst (filter_text pt ratio ?self' w None None) = Bool True"
    then have "fst (filter_text pt ratio ?self' w None None) \<noteq> Bool False" by simp
    then obtain u where u: "u \<in> set (split ?p)" and "is_match ratio (bad_words ?self') None u"
      by (auto simp: filter_text_False_iff tp)
    then have "u = ?p \<or> u \<in> bad_words self"
      by (simp add: is_match_def bw)
    then show "fst (filter_text pt ratio self w None None) = Bool True \<or>
      (?p \<noteq> [] \<and> (\<forall>c \<in> set ?p. \<not> isspace c))"
    proof
      assume "u = ?p"
      with u have "?p \<in> set (split ?p)" by simp
      then have "split ?p = [?p]" by (simp add: mem_split_self_iff)
      then show ?thesis by (simp add: split_single_iff)
    next
      assume "u \<in> bad_words self"
      with u have "\<exists>u \<in> set (split ?p). is_match ratio (bad_words self) None u"
        by (auto simp: is_match_def)
      then have "fst (filter_text pt ratio self w None None) \<noteq> Bool False"
        by (simp add: filter_text_False_iff)
      then show ?thesis by (simp add: filter_text_None_cases)
    qed
  next
    assume a: "fst (filter_text pt ratio self w None None) = Bool True \<or>
      (?p \<noteq> [] \<and> (\<forall>c \<in> set ?p. \<not> isspace c))"
    show "fst (filter_text pt ratio ?self' w None None) = Bool True"
    proof (cases "?p \<noteq> [] \<and> (\<forall>c \<in> set ?p. \<not> isspace c)")
      case True
      then show ?thesis by (rule add_words_single)
    next
      case False
      with a have "fst (filter_text pt ratio self w None None) \<noteq> Bool False" by simp
      then obtain u where "u \<in> set (split ?p)" "is_match ratio (bad_words self) None u"
        by (auto simp: filter_text_False_iff)
      then have "\<exists>u \<in> set (split (pt (text_processor ?self') w)).
                   is_match ratio (bad_words ?self') None u"
        by (auto simp: tp bw is_match_def)
      then have "fst (filter_text pt ratio ?self' w None None) \<noteq> Bool False"
        by (simp add: filter_text_False_iff)
      then show ?thesis by (simp add: filter_text_None_cases)
    qed
  qed
next
  assume "fst (filter_text pt ratio self v thr rc) \<noteq> Bool False"
  then obtain u where u: "u \<in> set (split (pt (text_processor self) v))"
    and m: "is_match ratio (bad_words self) thr u"
    by (auto simp: filter_text_False_iff)
  have "bad_words self \<subseteq> bad_words (add_words pt self words)"
    by (simp add: bad_words_add_words)
  from is_match_mono [OF this m] u
  have "\<exists>u \<in> set (split (pt (text_processor (add_words pt self words)) v)).
          is_match ratio (bad_words (add_words pt self words)) thr u"
    by (auto simp: text_processor_add_words)
  then show "fst (filter_text pt ratio (add_words pt self words) v thr rc) \<noteq> Bool False"
    by (simp add: filter_text_False_iff)
qed

text \<open>
  The claim as it is written fails for a phrase: \<open>bad word\<close> is stored as one entry, the
  text \<open>bad word\<close> has the two words \<open>bad\<close> and \<open>word\<close>, and \<open>filter_text\<close> returns \<open>False\<close>
  before and after \<open>add_words\<close>.
\<close>

theorem add_words_phrase_counterexample:
  "fst (filter_text process_text_off sequence_matcher_ratio plain_filter ''bad word'' None None)
     = Bool False \<and>
   fst (filter_text process_text_off sequence_matcher_ratio
          (add_words process_text_off plain_filter [''bad word'']) ''bad word'' None None)
     = Bool False"
proof -
  have t: "split (process_text_off tp ''bad word'') = [''bad'', ''word'']" for tp
    by (simp add: process_text_off_def strip_def split_def isspace_def)
  have s: "process_text_off tp ''bad word'' = ''bad word''" for tp
    by (simp add: process_text_off_def strip_def isspace_def)
  have t': "split ''bad word'' = [''bad'', ''word'']"
    using t by (simp add: s)
  have "fst (filter_text process_text_off sequence_matcher_ratio plain_filter ''bad word'' None None)
          = Bool False"
    by (simp add: filter_text_False_iff t is_match_def plain_filter_def)
  moreover have "fst (filter_text process_text_off sequence_matcher_ratio
          (add_words process_text_off plain_filter [''bad word'']) ''bad word'' None None)
          = Bool False"
    by (simp add: filter_text_False_iff t' s is_match_def text_processor_add_words
        bad_words_add_words plain_filter_def)
  ultimately show ?thesis by simp
qed

theorem add_words_monotone_witness:
  "fst (filter_text process_text_off sequence_matcher_ratio plain_filter ''darn'' None None)
     = Bool False \<and>
   fst (filter_text process_text_off sequence_matcher_ratio
          (add_words process_text_off plain_filter [''darn'']) ''darn'' None None) = Bool True \<and>
   fst (filter_text process_text_off sequence_matcher_ratio
          (add_words process_text_off plain_filter [''darn'']) ''a badword'' None (Some ''*''))
     \<noteq> Bool False"
proof -
  have p: "process_text_off (text_processor plain_filter) ''darn'' = ''darn''"
    by (simp add: process_text_off_def strip_def isspace_def)
  have one: "process_text_off (text_processor plain_filter) ''darn'' \<noteq> [] \<and>
      (\<forall>c \<in> set (process_text_off (text_processor plain_filter) ''darn''). \<not> isspace c)"
    unfolding p by (simp add: isspace_def)
  have before: "fst (filter_text process_text_off sequence_matcher_ratio plain_filter
                       ''darn'' None None) = Bool False"
    by (simp add: filter_text_False_iff tokens_darn is_match_def plain_filter_def)
  have flagged: "fst (filter_text process_text_off sequence_matcher_ratio plain_filter
                        ''a badword'' None (Some ''*'')) \<noteq> Bool False"
    by (simp add: filter_text_False_iff tokens_a_badword is_match_def plain_filter_def)
  from add_words_monotone [where pt = process_text_off and self = plain_filter
      and w = "''darn''" and ratio = sequence_matcher_ratio and thr = None
      and v = "''a badword''" and rc = "Some ''*''" and words = "[''darn'']"]
    one flagged
  have "fst (filter_text process_text_off sequence_matcher_ratio
          (add_words process_text_off plain_filter [''darn'']) ''darn'' None None) = Bool True"
    and "fst (filter_text process_text_off sequence_matcher_ratio
          (add_words process_text_off plain_filter [''darn'']) ''a badword'' None (Some ''*''))
        \<noteq> Bool False"
    by blast+
  with before show ?thesis by blast
qed






text \<open>
  The assumption on \<open>process_text\<close> is needed: a processor that switches transliteration
  on when it is called leaves the filter with another processor.
\<close>

lemma filter_text_state_impure:
  "text_processor (snd (filter_text_state
      (\<lambda>tp text. (text, tp\<lparr>processing_transliterate := True\<rparr>)) ratio plain_filter ''x'' None None))
     \<noteq> text_processor plain_filter"
  by (simp add: filter_text_state_def Let_def filter_words_state_eq plain_filter_def)

end
